theory Spec2Isabelle
  imports Complex_Main
begin

section \<open>The scroll-animation hook \<open>useScrollAnimation\<close>\<close>

text \<open>
  The hook of \<^verbatim>\<open>src/useScrollAnimation.js\<close> is embedded with explicit state passing.
  The state it touches lives in three places: the class lists of the page's elements,
  the one \<^verbatim>\<open>IntersectionObserver\<close> held in \<^verbatim>\<open>observerRef\<close>, and the bookkeeping
  React keeps for the hook (the ref and the cleanup returned by the last effect run).
  The observer, the document and React are not part of the repository; of them the
  model has what the source calls, with the behaviour their standards give:
  \<^verbatim>\<open>observe\<close>, \<^verbatim>\<open>unobserve\<close>, \<^verbatim>\<open>takeRecords\<close>, the delivery of queued entries to the
  callback, \<^verbatim>\<open>classList.add\<close>/\<^verbatim>\<open>remove\<close>, \<^verbatim>\<open>querySelectorAll\<close>, and an effect whose
  cleanup runs before the next effect run and at unmount.

  The arguments have the types of the README's API reference: a string for the class, an
  object for the options, a number or a list of numbers within 0 and 1 for
  \<^verbatim>\<open>threshold\<close>, a boolean for \<^verbatim>\<open>triggerOnce\<close>, a margin string for \<^verbatim>\<open>rootMargin\<close>; each
  may be left out. The observer's own checks of a threshold out of range or of a margin
  it cannot read are therefore no branch here. Any string can come as the class:
  \<^verbatim>\<open>classList\<close> throws for one that is no class token, and that is a branch.
\<close>

subsection \<open>Data\<close>

text \<open>An element is known by its identity only.\<close>

type_synonym element = nat

text \<open>
  \<^verbatim>\<open>threshold\<close> is a number or a list of numbers. The source never computes with it: it
  hands it to the observer as it is. So a number is a rational here.
\<close>

datatype threshold = Number rat | Numbers "rat list"

text \<open>
  The \<^verbatim>\<open>options\<close> object. A property that the caller's object does not have reads as
  \<^verbatim>\<open>undefined\<close>, which is \<open>None\<close>.
\<close>

record options =
  threshold :: "threshold option"
  triggerOnce :: "bool option"
  rootMargin :: "string option"

text \<open>What the source reads of an \<^verbatim>\<open>IntersectionObserverEntry\<close>.\<close>

record entry =
  target :: element
  isIntersecting :: bool

text \<open>
  The function \<^verbatim>\<open>intersectionCallback\<close> is a closure over the \<^verbatim>\<open>visibleClass\<close> and the
  \<^verbatim>\<open>options\<close> of the effect run that made it.
\<close>

record closure =
  cb_visibleClass :: string
  cb_options :: options

text \<open>
  An \<^verbatim>\<open>IntersectionObserver\<close>: which construction it comes from (\<open>oid\<close>), the callback
  and the settings it was constructed with, the elements it observes and the entries it
  has queued and not yet delivered.
\<close>

record observer =
  oid :: nat
  callback :: closure
  thresholds :: "rat list"
  init_rootMargin :: string
  observationTargets :: "element list"
  queuedEntries :: "entry list"

text \<open>The part of the state that the callback and the loop over the targets change.\<close>

record world =
  classList :: "element \<Rightarrow> string set"
  engine :: observer

text \<open>
  One instance of the hook: the page, \<^verbatim>\<open>observerRef.current\<close> (\<open>None\<close> is \<^verbatim>\<open>null\<close>), the
  cleanup of the last effect run (the \<^verbatim>\<open>targets\<close> it closes over; its \<^verbatim>\<open>observer\<close> is
  the one of \<^verbatim>\<open>observerRef\<close>, which is assigned once), and how many observers have been
  constructed so far.
\<close>

record session =
  page :: "element \<Rightarrow> string set"
  observerRef :: "observer option"
  cleanup :: "element list option"
  constructed :: nat

text \<open>
  The host: whether the global \<^verbatim>\<open>IntersectionObserver\<close> exists, and what
  \<^verbatim>\<open>document.querySelectorAll\<close> answers (\<open>None\<close> when the selector does not parse).
\<close>

record host =
  has_IntersectionObserver :: bool
  querySelectorAll :: "string \<Rightarrow> element list option"

datatype error = ReferenceError | SyntaxError | InvalidCharacterError

subsection \<open>The host's operations\<close>

text \<open>
  \<^verbatim>\<open>classList.add\<close> and \<^verbatim>\<open>classList.remove\<close> first check their token: the empty string
  is a \<^verbatim>\<open>SyntaxError\<close>, a string with ASCII whitespace (tab, line feed, form feed,
  carriage return, space) an \<^verbatim>\<open>InvalidCharacterError\<close>, and nothing is changed then.
\<close>

definition ascii_whitespace :: "char \<Rightarrow> bool" where
  "ascii_whitespace ch \<longleftrightarrow> ch \<in> set [CHR 0x09, CHR 0x0A, CHR 0x0C, CHR 0x0D, CHR 0x20]"

definition check_token :: "string \<Rightarrow> error option" where
  "check_token c =
     (if c = [] then Some SyntaxError
      else if list_ex ascii_whitespace c then Some InvalidCharacterError
      else None)"

definition classList_add :: "element \<Rightarrow> string \<Rightarrow> world \<Rightarrow> error + world" where
  "classList_add t c w =
     (case check_token c of
        Some err \<Rightarrow> Inl err
      | None \<Rightarrow> Inr (w\<lparr>classList := (classList w)(t := insert c (classList w t))\<rparr>))"

definition classList_remove :: "element \<Rightarrow> string \<Rightarrow> world \<Rightarrow> error + world" where
  "classList_remove t c w =
     (case check_token c of
        Some err \<Rightarrow> Inl err
      | None \<Rightarrow> Inr (w\<lparr>classList := (classList w)(t := classList w t - {c})\<rparr>))"

text \<open>\<^verbatim>\<open>observe\<close> of an element that is observed already does nothing.\<close>

definition observe :: "element \<Rightarrow> world \<Rightarrow> world" where
  "observe t w =
     (if t \<in> set (observationTargets (engine w)) then w
      else w\<lparr>engine := (engine w)\<lparr>observationTargets := observationTargets (engine w) @ [t]\<rparr>\<rparr>)"

text \<open>\<^verbatim>\<open>unobserve\<close> takes the element out of the observed ones; queued entries stay.\<close>

definition unobserve :: "element \<Rightarrow> world \<Rightarrow> world" where
  "unobserve t w =
     w\<lparr>engine := (engine w)\<lparr>observationTargets := removeAll t (observationTargets (engine w))\<rparr>\<rparr>"

text \<open>\<^verbatim>\<open>takeRecords\<close> returns the queued entries and empties the queue.\<close>

definition takeRecords :: "world \<Rightarrow> entry list \<times> world" where
  "takeRecords w = (queuedEntries (engine w), w\<lparr>engine := (engine w)\<lparr>queuedEntries := []\<rparr>\<rparr>)"

text \<open>JavaScript's truthiness of \<^verbatim>\<open>options.triggerOnce\<close>: \<^verbatim>\<open>undefined\<close> is falsy.\<close>

definition truthy :: "bool option \<Rightarrow> bool" where
  "truthy b = (b = Some True)"

subsection \<open>\<^verbatim>\<open>intersectionCallback\<close>\<close>

text \<open>
  The body of \<^verbatim>\<open>entries.forEach\<close>, lines 13 to 22. Where \<^verbatim>\<open>classList.add\<close> throws on
  line 14, line 16 is not reached.
\<close>

definition on_entry :: "closure \<Rightarrow> entry \<Rightarrow> world \<Rightarrow> error + world" where
  "on_entry c e w =
     (if isIntersecting e then
        (case classList_add (target e) (cb_visibleClass c) w of
           Inl err \<Rightarrow> Inl err
         | Inr w1 \<Rightarrow>
             Inr (if truthy (triggerOnce (cb_options c)) then unobserve (target e) w1 else w1))
      else
        (if \<not> truthy (triggerOnce (cb_options c))
         then classList_remove (target e) (cb_visibleClass c) w
         else Inr w))"

text \<open>
  The callback, lines 11 to 24. An exception leaves \<^verbatim>\<open>forEach\<close> and the callback: the
  entries after it are not looked at. The result is the state the callback leaves and
  the exception it threw, if any.
\<close>

fun intersectionCallback :: "closure \<Rightarrow> entry list \<Rightarrow> world \<Rightarrow> world \<times> error option" where
  "intersectionCallback c [] w = (w, None)"
| "intersectionCallback c (e # es) w =
     (case on_entry c e w of
        Inl err \<Rightarrow> (w, Some err)
      | Inr w' \<Rightarrow> intersectionCallback c es w')"

subsection \<open>The effect\<close>

text \<open>
  The body of \<^verbatim>\<open>targets.forEach\<close>, lines 36 to 44, and the loop. An exception of
  \<^verbatim>\<open>classList.add\<close> on line 38 leaves the loop and the effect.
\<close>

definition alreadyVisible :: "element \<Rightarrow> entry list \<Rightarrow> bool" where
  "alreadyVisible t records = list_ex (\<lambda>e. target e = t \<and> isIntersecting e) records"

definition on_target :: "string \<Rightarrow> options \<Rightarrow> element \<Rightarrow> world \<Rightarrow> error + world" where
  "on_target visibleClass opts t w =
     (case takeRecords w of (records, w1) \<Rightarrow>
        if alreadyVisible t records then
          (case classList_add t visibleClass w1 of
             Inl err \<Rightarrow> Inl err
           | Inr w2 \<Rightarrow> Inr (if \<not> truthy (triggerOnce opts) then observe t w2 else w2))
        else Inr (observe t w1))"

fun attach :: "string \<Rightarrow> options \<Rightarrow> element list \<Rightarrow> world \<Rightarrow> error + world" where
  "attach visibleClass opts [] w = Inr w"
| "attach visibleClass opts (t # ts) w =
     (case on_target visibleClass opts t w of
        Inl err \<Rightarrow> Inl err
      | Inr w' \<Rightarrow> attach visibleClass opts ts w')"

text \<open>
  \<^verbatim>\<open>new IntersectionObserver(intersectionCallback, {threshold, rootMargin})\<close>, lines 27 to
  30. A missing \<^verbatim>\<open>threshold\<close> is the observer's own default 0, and an empty list is [0];
  \<^verbatim>\<open>options.rootMargin || '0px'\<close> replaces \<^verbatim>\<open>undefined\<close> and the empty string.
\<close>

definition threshold_list :: "threshold option \<Rightarrow> rat list" where
  "threshold_list th =
     (case th of None \<Rightarrow> [0]
      | Some (Number x) \<Rightarrow> [x]
      | Some (Numbers xs) \<Rightarrow> (if xs = [] then [0] else sort xs))"

definition rootMargin_or_default :: "string option \<Rightarrow> string" where
  "rootMargin_or_default m =
     (case m of None \<Rightarrow> ''0px'' | Some s \<Rightarrow> (if s = [] then ''0px'' else s))"

definition new_IntersectionObserver :: "nat \<Rightarrow> string \<Rightarrow> options \<Rightarrow> observer" where
  "new_IntersectionObserver n visibleClass opts =
     \<lparr>oid = n,
      callback = \<lparr>cb_visibleClass = visibleClass, cb_options = opts\<rparr>,
      thresholds = threshold_list (threshold opts),
      init_rootMargin = rootMargin_or_default (rootMargin opts),
      observationTargets = [],
      queuedEntries = []\<rparr>"

text \<open>
  Lines 26 to 32: the observer of this run is the one in the ref, or, when the ref is
  \<^verbatim>\<open>null\<close>, a new one (a \<^verbatim>\<open>ReferenceError\<close> where the host has no
  \<^verbatim>\<open>IntersectionObserver\<close>). The result carries the number of observers constructed
  so far.
\<close>

definition current_observer ::
  "host \<Rightarrow> string \<Rightarrow> options \<Rightarrow> session \<Rightarrow> error + observer \<times> nat" where
  "current_observer h visibleClass opts s =
     (case observerRef s of
        None \<Rightarrow>
          if \<not> has_IntersectionObserver h then Inl ReferenceError
          else Inr (new_IntersectionObserver (constructed s) visibleClass opts,
                    Suc (constructed s))
      | Some ob \<Rightarrow> Inr (ob, constructed s))"

text \<open>
  One run of the effect, lines 11 to 51: the observer is taken or constructed, the
  targets are queried (a \<^verbatim>\<open>SyntaxError\<close> where the selector does not parse) and
  walked, and the cleanup over these targets is returned.
\<close>

definition effect :: "host \<Rightarrow> string \<Rightarrow> string \<Rightarrow> options \<Rightarrow> session \<Rightarrow> error + session" where
  "effect h targetSelector visibleClass opts s =
     (case current_observer h visibleClass opts s of
        Inl e \<Rightarrow> Inl e
      | Inr (ob, n) \<Rightarrow>
          (case querySelectorAll h targetSelector of
             None \<Rightarrow> Inl SyntaxError
           | Some targets \<Rightarrow>
               (case attach visibleClass opts targets \<lparr>classList = page s, engine = ob\<rparr> of
                  Inl err \<Rightarrow> Inl err
                | Inr w \<Rightarrow>
                    Inr \<lparr>page = classList w, observerRef = Some (engine w),
                         cleanup = Some targets, constructed = n\<rparr>)))"

text \<open>The cleanup, lines 47 to 51: \<^verbatim>\<open>targets.forEach(target => observer.unobserve(target))\<close>.\<close>

fun unobserve_all :: "element list \<Rightarrow> world \<Rightarrow> world" where
  "unobserve_all [] w = w"
| "unobserve_all (t # ts) w = unobserve_all ts (unobserve t w)"

definition run_cleanup :: "session \<Rightarrow> session" where
  "run_cleanup s =
     (case cleanup s of
        None \<Rightarrow> s
      | Some targets \<Rightarrow>
          (case observerRef s of
             None \<Rightarrow> s\<lparr>cleanup := None\<rparr>
           | Some ob \<Rightarrow>
               (let w = unobserve_all targets \<lparr>classList = page s, engine = ob\<rparr>
                in s\<lparr>page := classList w, observerRef := Some (engine w), cleanup := None\<rparr>)))"

text \<open>
  A call of the hook whose dependencies are new (the first render, or a later render
  with another selector, class or options object): the parameter defaults of lines 5
  and 6 apply to an argument that is \<^verbatim>\<open>undefined\<close>, React runs the cleanup of the
  previous effect run, and then the effect. A render with the same dependencies runs
  nothing.
\<close>

definition default_options :: options where
  "default_options = \<lparr>threshold = Some (Number (1 / 10)), triggerOnce = Some True, rootMargin = None\<rparr>"

definition resolve_class :: "string option \<Rightarrow> string" where
  "resolve_class visibleClass = (case visibleClass of None \<Rightarrow> ''is-visible'' | Some c \<Rightarrow> c)"

definition resolve_options :: "options option \<Rightarrow> options" where
  "resolve_options opts = (case opts of None \<Rightarrow> default_options | Some given \<Rightarrow> given)"

definition useScrollAnimation ::
  "host \<Rightarrow> string \<Rightarrow> string option \<Rightarrow> options option \<Rightarrow> session \<Rightarrow> error + session" where
  "useScrollAnimation h targetSelector visibleClass opts s =
     effect h targetSelector (resolve_class visibleClass) (resolve_options opts) (run_cleanup s)"

definition unmount :: "session \<Rightarrow> session" where
  "unmount s = run_cleanup s"

text \<open>The hook before its first effect run: \<^verbatim>\<open>useRef(null)\<close>, no cleanup yet.\<close>

definition mount :: "(element \<Rightarrow> string set) \<Rightarrow> session" where
  "mount p = \<lparr>page = p, observerRef = None, cleanup = None, constructed = 0\<rparr>"

subsection \<open>What the observer does between the hook's calls\<close>

text \<open>
  When the observer finds that an element it observes has crossed a threshold, it queues
  an entry for it; an element it does not observe gets none. Which crossings happen, and
  when, is the page's geometry and the user's scrolling: the properties below hold for
  every sequence of them. The first report on a newly observed element is such a
  crossing, too.
\<close>

definition crossing :: "element \<Rightarrow> bool \<Rightarrow> world \<Rightarrow> world" where
  "crossing t b w =
     (if t \<in> set (observationTargets (engine w))
      then w\<lparr>engine := (engine w)\<lparr>queuedEntries :=
                queuedEntries (engine w) @ [\<lparr>target = t, isIntersecting = b\<rparr>]\<rparr>\<rparr>
      else w)"

text \<open>
  Delivery: with a non-empty queue, the observer empties it and calls its callback with
  the entries that were in it. An exception of the callback is reported by the host and
  ends nothing: the page and the observer go on as the callback left them.
\<close>

definition notify :: "world \<Rightarrow> world" where
  "notify w =
     (if queuedEntries (engine w) = [] then w
      else fst (intersectionCallback (callback (engine w)) (queuedEntries (engine w))
                  (w\<lparr>engine := (engine w)\<lparr>queuedEntries := []\<rparr>\<rparr>)))"

datatype event = Crossing element bool | Notify

fun host_step :: "event \<Rightarrow> world \<Rightarrow> world" where
  "host_step (Crossing t b) w = crossing t b w"
| "host_step Notify w = notify w"

fun host_run :: "event list \<Rightarrow> world \<Rightarrow> world" where
  "host_run [] w = w"
| "host_run (ev # evs) w = host_run evs (host_step ev w)"

text \<open>The entries that the callback is called with in the course of these events, in order.\<close>

fun delivered :: "event list \<Rightarrow> world \<Rightarrow> entry list" where
  "delivered [] w = []"
| "delivered (Crossing t b # evs) w = delivered evs (crossing t b w)"
| "delivered (Notify # evs) w = queuedEntries (engine w) @ delivered evs (notify w)"

subsection \<open>Sessions\<close>

text \<open>
  The observer acts on the page and on itself; for the hook instance that is the page
  and the observer in the ref. No observer, no events.
\<close>

definition on_world :: "(world \<Rightarrow> world) \<Rightarrow> session \<Rightarrow> session" where
  "on_world f s =
     (case observerRef s of
        None \<Rightarrow> s
      | Some ob \<Rightarrow>
          (let w = f \<lparr>classList = page s, engine = ob\<rparr>
           in s\<lparr>page := classList w, observerRef := Some (engine w)\<rparr>))"

definition host_events :: "event list \<Rightarrow> session \<Rightarrow> session" where
  "host_events evs s = on_world (host_run evs) s"

text \<open>
  The life of one hook instance after \<open>mount\<close>: calls of the hook with new dependencies
  and events of the observer, in any order. An error thrown by the effect ends it.
\<close>

datatype action = Render host string "string option" "options option" | Host event

fun run_session :: "action list \<Rightarrow> session \<Rightarrow> error + session" where
  "run_session [] s = Inr s"
| "run_session (Render h targetSelector visibleClass opts # acts) s =
     (case useScrollAnimation h targetSelector visibleClass opts s of
        Inl e \<Rightarrow> Inl e
      | Inr s' \<Rightarrow> run_session acts s')"
| "run_session (Host ev # acts) s = run_session acts (host_events [ev] s)"

text \<open>What an observer keeps from its construction on.\<close>

definition settings :: "observer \<Rightarrow> nat \<times> closure \<times> rat list \<times> string" where
  "settings ob = (oid ob, callback ob, thresholds ob, init_rootMargin ob)"

text \<open>The entries of a batch that are about one element.\<close>

definition entries_of :: "element \<Rightarrow> entry list \<Rightarrow> entry list" where
  "entries_of t es = filter (\<lambda>e. target e = t) es"

text \<open>An element that the observer does not observe and has no entry queued for.\<close>

definition released :: "element \<Rightarrow> world \<Rightarrow> bool" where
  "released t w \<longleftrightarrow> t \<notin> set (observationTargets (engine w))
                    \<and> entries_of t (queuedEntries (engine w)) = []"


subsection \<open>Example inputs\<close>

text \<open>
  A page on which \<^verbatim>\<open>.x\<close> matches two elements, 0 and 1, in a host with the observer
  and in one without it; every other selector matches nothing.
\<close>

definition browser :: host where
  "browser = \<lparr>has_IntersectionObserver = True,
              querySelectorAll = (\<lambda>sel. if sel = ''.x'' then Some [0, 1] else Some [])\<rparr>"

definition legacy_browser :: host where
  "legacy_browser = \<lparr>has_IntersectionObserver = False,
              querySelectorAll = (\<lambda>sel. if sel = ''.x'' then Some [0, 1] else Some [])\<rparr>"

text \<open>
  Options objects: \<^verbatim>\<open>{threshold: 0.5, triggerOnce: true}\<close>,
  \<^verbatim>\<open>{threshold: 0, triggerOnce: false}\<close>, and two that give one property only,
  \<^verbatim>\<open>{threshold: 0.5}\<close> and \<^verbatim>\<open>{triggerOnce: true}\<close>.
\<close>

definition once_options :: options where
  "once_options = \<lparr>threshold = Some (Number (1 / 2)), triggerOnce = Some True, rootMargin = None\<rparr>"

definition toggle_options :: options where
  "toggle_options = \<lparr>threshold = Some (Number 0), triggerOnce = Some False, rootMargin = None\<rparr>"

definition threshold_only :: options where
  "threshold_only = \<lparr>threshold = Some (Number (1 / 2)), triggerOnce = None, rootMargin = None\<rparr>"

definition triggerOnce_only :: options where
  "triggerOnce_only = \<lparr>threshold = None, triggerOnce = Some True, rootMargin = None\<rparr>"

text \<open>
  Two options objects that differ in every field:
  \<^verbatim>\<open>{threshold: [0.75, 0.25], triggerOnce: true, rootMargin: '10px'}\<close> and
  \<^verbatim>\<open>{threshold: 0, triggerOnce: false, rootMargin: '50px 0px'}\<close>.
\<close>

definition margin_options :: options where
  "margin_options = \<lparr>threshold = Some (Numbers [3 / 4, 1 / 4]), triggerOnce = Some True,
                      rootMargin = Some ''10px''\<rparr>"

definition other_margin_options :: options where
  "other_margin_options = \<lparr>threshold = Some (Number 0), triggerOnce = Some False,
                            rootMargin = Some ''50px 0px''\<rparr>"

text \<open>A page without any class, and the entries for an element entering and leaving.\<close>

definition blank :: "element \<Rightarrow> string set" where
  "blank = (\<lambda>t. {})"

definition enters :: "element \<Rightarrow> entry" where
  "enters t = \<lparr>target = t, isIntersecting = True\<rparr>"

definition leaves :: "element \<Rightarrow> entry" where
  "leaves t = \<lparr>target = t, isIntersecting = False\<rparr>"

text \<open>
  The first observer of a session made for the class \<^verbatim>\<open>is-visible\<close> and the given
  options, once it observes \<open>ts\<close> and has \<open>q\<close> queued.
\<close>

definition example_observer :: "options \<Rightarrow> element list \<Rightarrow> entry list \<Rightarrow> observer" where
  "example_observer opts ts q =
     (new_IntersectionObserver 0 ''is-visible'' opts)\<lparr>observationTargets := ts, queuedEntries := q\<rparr>"

section \<open>Properties\<close>

subsection \<open>The host's operations\<close>

lemma classList_add_token:
  "check_token c = None \<Longrightarrow>
   classList_add t c w = Inr (w\<lparr>classList := (classList w)(t := insert c (classList w t))\<rparr>)"
  by (simp add: classList_add_def)

lemma classList_remove_token:
  "check_token c = None \<Longrightarrow>
   classList_remove t c w = Inr (w\<lparr>classList := (classList w)(t := classList w t - {c})\<rparr>)"
  by (simp add: classList_remove_def)

lemma classList_add_Inr:
  "classList_add t c w = Inr w' \<Longrightarrow>
   w' = w\<lparr>classList := (classList w)(t := insert c (classList w t))\<rparr>"
  by (auto simp: classList_add_def split: option.splits)

lemma classList_remove_Inr:
  "classList_remove t c w = Inr w' \<Longrightarrow>
   w' = w\<lparr>classList := (classList w)(t := classList w t - {c})\<rparr>"
  by (auto simp: classList_remove_def split: option.splits)

lemma classList_add_Inl: "classList_add t c w = Inl err \<Longrightarrow> check_token c = Some err"
  by (auto simp: classList_add_def split: option.splits)

lemma classList_remove_Inl: "classList_remove t c w = Inl err \<Longrightarrow> check_token c = Some err"
  by (auto simp: classList_remove_def split: option.splits)

lemma observe_simps [simp]:
  "classList (observe t w) = classList w"
  "set (observationTargets (engine (observe t w))) = insert t (set (observationTargets (engine w)))"
  "queuedEntries (engine (observe t w)) = queuedEntries (engine w)"
  "settings (engine (observe t w)) = settings (engine w)"
  by (auto simp: observe_def settings_def)

lemma unobserve_simps [simp]:
  "classList (unobserve t w) = classList w"
  "set (observationTargets (engine (unobserve t w))) = set (observationTargets (engine w)) - {t}"
  "queuedEntries (engine (unobserve t w)) = queuedEntries (engine w)"
  "settings (engine (unobserve t w)) = settings (engine w)"
  by (auto simp: unobserve_def settings_def)

lemma callback_of_settings: "settings ob' = settings ob \<Longrightarrow> callback ob' = callback ob"
  by (simp add: settings_def)

subsection \<open>One entry\<close>


lemma on_entry_token:
  "check_token (cb_visibleClass c) = None \<Longrightarrow> \<exists>w'. on_entry c e w = Inr w'"
  by (simp add: on_entry_def classList_add_token classList_remove_token)

lemma on_entry_Inl:
  "on_entry c e w = Inl err \<Longrightarrow> check_token (cb_visibleClass c) = Some err"
  by (auto simp: on_entry_def split: if_splits sum.splits
      dest: classList_add_Inl classList_remove_Inl)

lemma on_entry_frame:
  assumes "on_entry c e w = Inr w'"
  shows "settings (engine w') = settings (engine w)"
    and "queuedEntries (engine w') = queuedEntries (engine w)"
    and "set (observationTargets (engine w')) \<subseteq> set (observationTargets (engine w))"
    and "target e \<noteq> t \<Longrightarrow> classList w' t = classList w t"
  using assms
  by (auto simp: on_entry_def split: if_splits sum.splits
      dest!: classList_add_Inr classList_remove_Inr)

lemma on_entry_toggle:
  assumes "\<not> truthy (triggerOnce (cb_options c))" and "on_entry c e w = Inr w'"
  shows "(cb_visibleClass c \<in> classList w' (target e)) = isIntersecting e"
    and "observationTargets (engine w') = observationTargets (engine w)"
  using assms
  by (auto simp: on_entry_def split: if_splits sum.splits
      dest!: classList_add_Inr classList_remove_Inr)

lemma on_entry_once_keeps:
  assumes "truthy (triggerOnce (cb_options c))" and "on_entry c e w = Inr w'"
  shows "classList w t \<subseteq> classList w' t"
  using assms
  by (auto simp: on_entry_def split: if_splits sum.splits dest!: classList_add_Inr)

lemma on_entry_once_enter:
  assumes "truthy (triggerOnce (cb_options c))" and "isIntersecting e"
    and "on_entry c e w = Inr w'"
  shows "cb_visibleClass c \<in> classList w' (target e)
         \<and> target e \<notin> set (observationTargets (engine w'))"
  using assms
  by (auto simp: on_entry_def split: if_splits sum.splits dest!: classList_add_Inr)


subsection \<open>The callback\<close>

lemma intersectionCallback_Cons_Inr:
  "on_entry c e w = Inr w' \<Longrightarrow>
   intersectionCallback c (e # es) w = intersectionCallback c es w'"
  by simp

lemma intersectionCallback_Cons_Inl:
  "on_entry c e w = Inl err \<Longrightarrow> intersectionCallback c (e # es) w = (w, Some err)"
  by simp

lemma intersectionCallback_settings [simp]:
  "settings (engine (fst (intersectionCallback c es w))) = settings (engine w)"
proof (induction es arbitrary: w)
  case Nil
  then show ?case by simp
next
  case (Cons e es)
  show ?case
  proof (cases "on_entry c e w")
    case (Inl err)
    then show ?thesis by simp
  next
    case (Inr w')
    with Cons.IH [of w'] on_entry_frame(1) [OF Inr] show ?thesis by simp
  qed
qed

lemma intersectionCallback_queue [simp]:
  "queuedEntries (engine (fst (intersectionCallback c es w))) = queuedEntries (engine w)"
proof (induction es arbitrary: w)
  case Nil
  then show ?case by simp
next
  case (Cons e es)
  show ?case
  proof (cases "on_entry c e w")
    case (Inl err)
    then show ?thesis by simp
  next
    case (Inr w')
    with Cons.IH [of w'] on_entry_frame(2) [OF Inr] show ?thesis by simp
  qed
qed

lemma intersectionCallback_targets_subset:
  "set (observationTargets (engine (fst (intersectionCallback c es w))))
     \<subseteq> set (observationTargets (engine w))"
proof (induction es arbitrary: w)
  case Nil
  then show ?case by simp
next
  case (Cons e es)
  show ?case
  proof (cases "on_entry c e w")
    case (Inl err)
    then show ?thesis by simp
  next
    case (Inr w')
    have "set (observationTargets (engine (fst (intersectionCallback c es w'))))
            \<subseteq> set (observationTargets (engine w'))"
      by (rule Cons.IH)
    also have "\<dots> \<subseteq> set (observationTargets (engine w))"
      using Inr by (rule on_entry_frame(3))
    finally show ?thesis using Inr by simp
  qed
qed

lemma intersectionCallback_other:
  "entries_of t es = [] \<Longrightarrow> classList (fst (intersectionCallback c es w)) t = classList w t"
proof (induction es arbitrary: w)
  case Nil
  then show ?case by simp
next
  case (Cons e es)
  from Cons.prems have ne: "target e \<noteq> t" and rest: "entries_of t es = []"
    by (auto simp: entries_of_def split: if_splits)
  show ?case
  proof (cases "on_entry c e w")
    case (Inl err)
    then show ?thesis by simp
  next
    case (Inr w')
    from Cons.IH [OF rest, of w'] on_entry_frame(4) [OF Inr ne] Inr show ?thesis by simp
  qed
qed

lemma intersectionCallback_token:
  "check_token (cb_visibleClass c) = None \<Longrightarrow> snd (intersectionCallback c es w) = None"
proof (induction es arbitrary: w)
  case Nil
  then show ?case by simp
next
  case (Cons e es)
  from on_entry_token [OF Cons.prems, of e w] obtain w' where "on_entry c e w = Inr w'" ..
  with Cons.IH [OF Cons.prems, of w'] show ?case by simp
qed

subsection \<open>Toggling\<close>

lemma intersectionCallback_toggle_targets:
  "\<not> truthy (triggerOnce (cb_options c)) \<Longrightarrow>
   observationTargets (engine (fst (intersectionCallback c es w))) = observationTargets (engine w)"
proof (induction es arbitrary: w)
  case Nil
  then show ?case by simp
next
  case (Cons e es)
  show ?case
  proof (cases "on_entry c e w")
    case (Inl err)
    then show ?thesis by simp
  next
    case (Inr w')
    with Cons.IH [OF Cons.prems, of w'] on_entry_toggle(2) [OF Cons.prems Inr]
    show ?thesis by simp
  qed
qed

lemma intersectionCallback_toggle_marker:
  assumes "\<not> truthy (triggerOnce (cb_options c))" and "check_token (cb_visibleClass c) = None"
  shows "(cb_visibleClass c \<in> classList (fst (intersectionCallback c es w)) t)
           = (if entries_of t es = [] then cb_visibleClass c \<in> classList w t
              else isIntersecting (last (entries_of t es)))"
proof (induction es arbitrary: w)
  case Nil
  then show ?case by (simp add: entries_of_def)
next
  case (Cons e es)
  from on_entry_token [OF assms(2), of e w] obtain w' where w': "on_entry c e w = Inr w'" ..
  have ih: "(cb_visibleClass c \<in> classList (fst (intersectionCallback c es w')) t)
              = (if entries_of t es = [] then cb_visibleClass c \<in> classList w' t
                 else isIntersecting (last (entries_of t es)))"
    by (rule Cons.IH)
  show ?case
  proof (cases "target e = t")
    case True
    have "(cb_visibleClass c \<in> classList w' t) = isIntersecting e"
      using on_entry_toggle(1) [OF assms(1) w'] True by simp
    with ih True w' show ?thesis by (simp add: entries_of_def)
  next
    case False
    have "classList w' t = classList w t"
      using w' False by (rule on_entry_frame(4))
    with ih False w' show ?thesis by (simp add: entries_of_def)
  qed
qed

subsection \<open>One shot\<close>

lemma intersectionCallback_once_keeps:
  "truthy (triggerOnce (cb_options c)) \<Longrightarrow>
   classList w t \<subseteq> classList (fst (intersectionCallback c es w)) t"
proof (induction es arbitrary: w)
  case Nil
  then show ?case by simp
next
  case (Cons e es)
  show ?case
  proof (cases "on_entry c e w")
    case (Inl err)
    then show ?thesis by simp
  next
    case (Inr w')
    have "classList w t \<subseteq> classList w' t"
      using Cons.prems Inr by (rule on_entry_once_keeps)
    also have "\<dots> \<subseteq> classList (fst (intersectionCallback c es w')) t"
      using Cons.prems by (rule Cons.IH)
    finally show ?thesis using Inr by simp
  qed
qed

lemma intersectionCallback_once_enter:
  assumes "truthy (triggerOnce (cb_options c))" and "check_token (cb_visibleClass c) = None"
  shows "e \<in> set es \<Longrightarrow> isIntersecting e \<Longrightarrow>
         cb_visibleClass c \<in> classList (fst (intersectionCallback c es w)) (target e)
         \<and> target e \<notin> set (observationTargets (engine (fst (intersectionCallback c es w))))"
proof (induction es arbitrary: w)
  case Nil
  then show ?case by simp
next
  case (Cons x es)
  from on_entry_token [OF assms(2), of x w] obtain w' where w': "on_entry c x w = Inr w'" ..
  show ?case
  proof (cases "e \<in> set es")
    case True
    from Cons.IH [OF True Cons.prems(2), of w'] w' show ?thesis by simp
  next
    case False
    with Cons.prems have "x = e" by simp
    with w' have "on_entry c e w = Inr w'" by simp
    from on_entry_once_enter [OF assms(1) Cons.prems(2) this]
    have here: "cb_visibleClass c \<in> classList w' (target e)
                \<and> target e \<notin> set (observationTargets (engine w'))" .
    have "classList w' (target e) \<subseteq> classList (fst (intersectionCallback c es w')) (target e)"
      using assms(1) by (rule intersectionCallback_once_keeps)
    moreover have "set (observationTargets (engine (fst (intersectionCallback c es w'))))
                     \<subseteq> set (observationTargets (engine w'))"
      by (rule intersectionCallback_targets_subset)
    ultimately show ?thesis using here w' by auto
  qed
qed


subsection \<open>The observer's steps\<close>

lemma crossing_simps [simp]:
  "classList (crossing t b w) = classList w"
  "observationTargets (engine (crossing t b w)) = observationTargets (engine w)"
  "settings (engine (crossing t b w)) = settings (engine w)"
  by (simp_all add: crossing_def settings_def)

lemma crossing_unobserved:
  "t \<notin> set (observationTargets (engine w)) \<Longrightarrow> crossing t b w = w"
  by (simp add: crossing_def)

lemma crossing_queue_other:
  "t \<noteq> u \<Longrightarrow> entries_of u (queuedEntries (engine (crossing t b w)))
               = entries_of u (queuedEntries (engine w))"
  by (simp add: crossing_def entries_of_def)

lemma notify_settings [simp]: "settings (engine (notify w)) = settings (engine w)"
  by (simp add: notify_def) (simp add: settings_def)

lemma notify_queue [simp]: "queuedEntries (engine (notify w)) = []"
  by (simp add: notify_def)

lemma notify_targets_subset:
  "set (observationTargets (engine (notify w))) \<subseteq> set (observationTargets (engine w))"
proof (cases "queuedEntries (engine w) = []")
  case True
  then show ?thesis by (simp add: notify_def)
next
  case False
  let ?w = "w\<lparr>engine := (engine w)\<lparr>queuedEntries := []\<rparr>\<rparr>"
  have "set (observationTargets (engine (fst (intersectionCallback (callback (engine w))
            (queuedEntries (engine w)) ?w)))) \<subseteq> set (observationTargets (engine ?w))"
    by (rule intersectionCallback_targets_subset)
  then show ?thesis using False by (simp add: notify_def)
qed

lemma notify_other:
  "entries_of t (queuedEntries (engine w)) = [] \<Longrightarrow> classList (notify w) t = classList w t"
  by (simp add: notify_def intersectionCallback_other)

lemma host_step_settings [simp]: "settings (engine (host_step ev w)) = settings (engine w)"
  by (cases ev) simp_all

lemma host_run_settings [simp]: "settings (engine (host_run evs w)) = settings (engine w)"
  by (induction evs arbitrary: w) simp_all



lemma host_step_released:
  assumes "released t w"
  shows "released t (host_step ev w) \<and> classList (host_step ev w) t = classList w t"
proof (cases ev)
  case (Crossing u b)
  have "crossing u b w = w" if "u = t"
    using that assms by (simp add: released_def crossing_unobserved)
  moreover have "released t (crossing u b w)" if "u \<noteq> t"
    using that assms by (simp add: released_def crossing_queue_other)
  ultimately show ?thesis using Crossing assms by (cases "u = t") simp_all
next
  case Notify
  have "t \<notin> set (observationTargets (engine (notify w)))"
    using assms notify_targets_subset [of w] by (auto simp: released_def)
  then have "released t (notify w)"
    by (simp add: released_def entries_of_def)
  moreover have "classList (notify w) t = classList w t"
    using assms by (simp add: released_def notify_other)
  ultimately show ?thesis using Notify by simp
qed

lemma host_run_released:
  "released t w \<Longrightarrow> released t (host_run evs w) \<and> classList (host_run evs w) t = classList w t"
proof (induction evs arbitrary: w)
  case Nil
  then show ?case by simp
next
  case (Cons ev evs)
  from host_step_released [OF Cons.prems]
  have r: "released t (host_step ev w)" and c: "classList (host_step ev w) t = classList w t"
    by simp_all
  from Cons.IH [OF r] c show ?case by simp
qed


subsection \<open>One shot, over the observer's steps\<close>

lemma notify_once_keeps:
  "truthy (triggerOnce (cb_options (callback (engine w)))) \<Longrightarrow>
   classList w t \<subseteq> classList (notify w) t"
  using intersectionCallback_once_keeps
    [of "callback (engine w)" "w\<lparr>engine := (engine w)\<lparr>queuedEntries := []\<rparr>\<rparr>" t]
  by (simp add: notify_def)

lemma host_run_once_keeps:
  "truthy (triggerOnce (cb_options (callback (engine w)))) \<Longrightarrow>
   classList w t \<subseteq> classList (host_run evs w) t"
proof (induction evs arbitrary: w)
  case Nil
  then show ?case by simp
next
  case (Cons ev evs)
  have cb: "callback (engine (host_step ev w)) = callback (engine w)"
    by (rule callback_of_settings) simp
  have "classList w t \<subseteq> classList (host_step ev w) t"
    using Cons.prems by (cases ev) (simp_all add: notify_once_keeps)
  also have "\<dots> \<subseteq> classList (host_run evs (host_step ev w)) t"
    using Cons.prems cb by (intro Cons.IH) simp
  finally show ?case by simp
qed

lemma notify_once_enter:
  assumes "truthy (triggerOnce (cb_options (callback (engine w))))"
    and "check_token (cb_visibleClass (callback (engine w))) = None"
    and "e \<in> set (queuedEntries (engine w))" and "isIntersecting e"
  shows "cb_visibleClass (callback (engine w)) \<in> classList (notify w) (target e)
         \<and> released (target e) (notify w)"
proof -
  let ?c = "callback (engine w)"
  let ?w = "w\<lparr>engine := (engine w)\<lparr>queuedEntries := []\<rparr>\<rparr>"
  from assms(3) have "queuedEntries (engine w) \<noteq> []" by auto
  then have n: "notify w = fst (intersectionCallback ?c (queuedEntries (engine w)) ?w)"
    by (simp add: notify_def)
  have "cb_visibleClass ?c \<in> classList (notify w) (target e)
        \<and> target e \<notin> set (observationTargets (engine (notify w)))"
    unfolding n using assms by (intro intersectionCallback_once_enter)
  then show ?thesis by (simp add: released_def entries_of_def)
qed

subsection \<open>Toggling, over the observer's steps\<close>

lemma notify_toggle_targets:
  "\<not> truthy (triggerOnce (cb_options (callback (engine w)))) \<Longrightarrow>
   observationTargets (engine (notify w)) = observationTargets (engine w)"
  by (simp add: notify_def intersectionCallback_toggle_targets)

lemma host_run_toggle_targets:
  "\<not> truthy (triggerOnce (cb_options (callback (engine w)))) \<Longrightarrow>
   observationTargets (engine (host_run evs w)) = observationTargets (engine w)"
proof (induction evs arbitrary: w)
  case Nil
  then show ?case by simp
next
  case (Cons ev evs)
  have cb: "callback (engine (host_step ev w)) = callback (engine w)"
    by (rule callback_of_settings) simp
  have "observationTargets (engine (host_step ev w)) = observationTargets (engine w)"
    using Cons.prems by (cases ev) (simp_all add: notify_toggle_targets)
  moreover have "observationTargets (engine (host_run evs (host_step ev w)))
                   = observationTargets (engine (host_step ev w))"
    using Cons.prems cb by (intro Cons.IH) simp
  ultimately show ?case by simp
qed

lemma notify_toggle_marker:
  assumes "\<not> truthy (triggerOnce (cb_options (callback (engine w))))"
    and "check_token (cb_visibleClass (callback (engine w))) = None"
  shows "(cb_visibleClass (callback (engine w)) \<in> classList (notify w) t)
           = (if entries_of t (queuedEntries (engine w)) = []
              then cb_visibleClass (callback (engine w)) \<in> classList w t
              else isIntersecting (last (entries_of t (queuedEntries (engine w)))))"
proof (cases "queuedEntries (engine w) = []")
  case True
  then show ?thesis by (simp add: notify_def entries_of_def)
next
  case False
  then show ?thesis
    using intersectionCallback_toggle_marker [OF assms,
        of "queuedEntries (engine w)" "w\<lparr>engine := (engine w)\<lparr>queuedEntries := []\<rparr>\<rparr>" t]
    by (simp add: notify_def)
qed

lemma host_run_toggle_marker:
  assumes "\<not> truthy (triggerOnce (cb_options c))" and "check_token (cb_visibleClass c) = None"
  shows "callback (engine w) = c \<Longrightarrow>
         (cb_visibleClass c \<in> classList (host_run evs w) t)
           = (if entries_of t (delivered evs w) = [] then cb_visibleClass c \<in> classList w t
              else isIntersecting (last (entries_of t (delivered evs w))))"
proof (induction evs w rule: delivered.induct)
  case (1 w)
  then show ?case by (simp add: entries_of_def)
next
  case (2 u b evs w)
  have "callback (engine (crossing u b w)) = c"
    using "2.prems" callback_of_settings [of "engine (crossing u b w)" "engine w"] by simp
  from "2.IH" [OF this] show ?case by simp
next
  case (3 evs w)
  have cb: "callback (engine (notify w)) = c"
    using "3.prems" callback_of_settings [of "engine (notify w)" "engine w"] by simp
  note ih = "3.IH" [OF cb]
  have n: "(cb_visibleClass c \<in> classList (notify w) t)
             = (if entries_of t (queuedEntries (engine w)) = []
                then cb_visibleClass c \<in> classList w t
                else isIntersecting (last (entries_of t (queuedEntries (engine w)))))"
    using notify_toggle_marker [of w t] assms "3.prems" by simp
  have split: "entries_of t (queuedEntries (engine w) @ delivered evs (notify w))
                 = entries_of t (queuedEntries (engine w)) @ entries_of t (delivered evs (notify w))"
    by (simp add: entries_of_def)
  show ?case
    using ih n by (simp add: split)
qed

subsection \<open>The loop over the targets\<close>

lemma drain_empty:
  assumes "queuedEntries (engine w) = []"
  shows "w\<lparr>engine := (engine w)\<lparr>queuedEntries := []\<rparr>\<rparr> = w"
proof -
  have "(engine w)\<lparr>queuedEntries := []\<rparr> = (engine w)\<lparr>queuedEntries := queuedEntries (engine w)\<rparr>"
    by (simp only: assms)
  then show ?thesis by simp
qed

lemma on_target_Inr:
  assumes "on_target v opts t w = Inr w'"
  shows "settings (engine w') = settings (engine w)"
    and "queuedEntries (engine w') = []"
    and "set (observationTargets (engine w')) \<subseteq> insert t (set (observationTargets (engine w)))"
    and "classList w u \<subseteq> classList w' u"
  using assms
  by (auto simp: on_target_def takeRecords_def settings_def observe_def
      split: if_splits sum.splits dest!: classList_add_Inr)

lemma on_target_fresh:
  "queuedEntries (engine w) = [] \<Longrightarrow> on_target v opts t w = Inr (observe t w)"
  by (simp add: on_target_def takeRecords_def alreadyVisible_def drain_empty)

lemma attach_Inr:
  "attach v opts ts w = Inr w' \<Longrightarrow>
   settings (engine w') = settings (engine w)
   \<and> set (observationTargets (engine w')) \<subseteq> set (observationTargets (engine w)) \<union> set ts
   \<and> classList w u \<subseteq> classList w' u"
proof (induction ts arbitrary: w)
  case Nil
  then show ?case by simp
next
  case (Cons t ts)
  from Cons.prems obtain w1 where
    w1: "on_target v opts t w = Inr w1" and rest: "attach v opts ts w1 = Inr w'"
    by (auto split: sum.splits)
  from Cons.IH [OF rest] on_target_Inr(1,3) [OF w1] on_target_Inr(4) [OF w1, where u = u]
  show ?case by auto
qed

lemma attach_fresh:
  "queuedEntries (engine w) = [] \<Longrightarrow>
   \<exists>w'. attach v opts ts w = Inr w'
     \<and> classList w' = classList w
     \<and> set (observationTargets (engine w')) = set (observationTargets (engine w)) \<union> set ts
     \<and> queuedEntries (engine w') = []"
proof (induction ts arbitrary: w)
  case Nil
  then show ?case by simp
next
  case (Cons t ts)
  have step: "on_target v opts t w = Inr (observe t w)"
    using Cons.prems by (rule on_target_fresh)
  have "queuedEntries (engine (observe t w)) = []"
    using Cons.prems by simp
  from Cons.IH [OF this] show ?case
    by (auto simp: step)
qed

subsection \<open>The cleanup\<close>

lemma unobserve_all_simps [simp]:
  "classList (unobserve_all ts w) = classList w"
  "set (observationTargets (engine (unobserve_all ts w))) = set (observationTargets (engine w)) - set ts"
  "queuedEntries (engine (unobserve_all ts w)) = queuedEntries (engine w)"
  "settings (engine (unobserve_all ts w)) = settings (engine w)"
  by (induction ts arbitrary: w) auto

lemma run_cleanup_page [simp]: "page (run_cleanup s) = page s"
  by (simp add: run_cleanup_def Let_def split: option.splits)

lemma run_cleanup_constructed [simp]: "constructed (run_cleanup s) = constructed s"
  by (simp add: run_cleanup_def Let_def split: option.splits)

lemma run_cleanup_cleanup [simp]: "cleanup (run_cleanup s) = None"
  by (simp add: run_cleanup_def Let_def split: option.splits)

lemma run_cleanup_None [simp]: "(observerRef (run_cleanup s) = None) = (observerRef s = None)"
  by (simp add: run_cleanup_def Let_def split: option.splits)

lemma run_cleanup_Some:
  "observerRef s = Some ob \<Longrightarrow>
   \<exists>ob'. observerRef (run_cleanup s) = Some ob' \<and> settings ob' = settings ob
        \<and> queuedEntries ob' = queuedEntries ob
        \<and> set (observationTargets ob')
            = set (observationTargets ob) - (case cleanup s of None \<Rightarrow> {} | Some ts \<Rightarrow> set ts)"
  by (simp add: run_cleanup_def Let_def split: option.splits)


subsection \<open>The effect\<close>

lemma new_IntersectionObserver_settings:
  "settings (new_IntersectionObserver n v opts)
     = (n, \<lparr>cb_visibleClass = v, cb_options = opts\<rparr>, threshold_list (threshold opts),
        rootMargin_or_default (rootMargin opts))"
  by (simp add: settings_def new_IntersectionObserver_def)

lemma current_observer_new:
  assumes "observerRef s = None" and "current_observer h v opts s = Inr (ob, n)"
  shows "has_IntersectionObserver h \<and> ob = new_IntersectionObserver (constructed s) v opts
         \<and> n = Suc (constructed s)"
  using assms by (auto simp: current_observer_def split: if_splits)

lemma current_observer_reuse:
  assumes "observerRef s = Some ob0" and "current_observer h v opts s = Inr (ob, n)"
  shows "ob = ob0 \<and> n = constructed s"
  using assms by (auto simp: current_observer_def)

lemma effect_Inr:
  assumes "effect h sel v opts s = Inr s'"
  shows "\<exists>ob n ts w. current_observer h v opts s = Inr (ob, n)
           \<and> querySelectorAll h sel = Some ts
           \<and> attach v opts ts \<lparr>classList = page s, engine = ob\<rparr> = Inr w
           \<and> s' = \<lparr>page = classList w, observerRef = Some (engine w),
                    cleanup = Some ts, constructed = n\<rparr>"
  using assms by (auto simp: effect_def split: sum.splits option.splits prod.splits)

lemma effect_new_settings:
  assumes "observerRef s = None" and "effect h sel v opts s = Inr s'"
  shows "\<exists>ob'. observerRef s' = Some ob'
           \<and> settings ob' = (constructed s, \<lparr>cb_visibleClass = v, cb_options = opts\<rparr>,
                             threshold_list (threshold opts), rootMargin_or_default (rootMargin opts))
           \<and> constructed s' = Suc (constructed s)"
proof -
  from effect_Inr [OF assms(2)] obtain ob n ts w where
    co: "current_observer h v opts s = Inr (ob, n)"
    and at: "attach v opts ts \<lparr>classList = page s, engine = ob\<rparr> = Inr w"
    and s': "s' = \<lparr>page = classList w, observerRef = Some (engine w),
                   cleanup = Some ts, constructed = n\<rparr>"
    by blast
  from current_observer_new [OF assms(1) co] attach_Inr [OF at] s'
  show ?thesis by (simp add: new_IntersectionObserver_settings)
qed

lemma effect_reuse_settings:
  assumes "observerRef s = Some ob" and "effect h sel v opts s = Inr s'"
  shows "\<exists>ob'. observerRef s' = Some ob' \<and> settings ob' = settings ob
           \<and> constructed s' = constructed s"
proof -
  from effect_Inr [OF assms(2)] obtain ob1 n ts w where
    co: "current_observer h v opts s = Inr (ob1, n)"
    and at: "attach v opts ts \<lparr>classList = page s, engine = ob1\<rparr> = Inr w"
    and s': "s' = \<lparr>page = classList w, observerRef = Some (engine w),
                   cleanup = Some ts, constructed = n\<rparr>"
    by blast
  from current_observer_reuse [OF assms(1) co] attach_Inr [OF at] s'
  show ?thesis by simp
qed

lemma effect_grows:
  assumes "effect h sel v opts s = Inr s'"
  shows "page s t \<subseteq> page s' t"
proof -
  from effect_Inr [OF assms] obtain ob n ts w where
    at: "attach v opts ts \<lparr>classList = page s, engine = ob\<rparr> = Inr w"
    and s': "s' = \<lparr>page = classList w, observerRef = Some (engine w),
                   cleanup = Some ts, constructed = n\<rparr>"
    by blast
  from attach_Inr [OF at, of t] s' show ?thesis by simp
qed


lemma effect_no_targets:
  assumes "querySelectorAll h sel = Some []" and "has_IntersectionObserver h"
  shows "effect h sel v opts s
           = Inr \<lparr>page = page s,
                  observerRef = Some (case observerRef s of
                                        None \<Rightarrow> new_IntersectionObserver (constructed s) v opts
                                      | Some ob \<Rightarrow> ob),
                  cleanup = Some [],
                  constructed = (case observerRef s of None \<Rightarrow> Suc (constructed s)
                                 | Some ob \<Rightarrow> constructed s)\<rparr>"
  using assms by (simp add: effect_def current_observer_def split: option.splits)

subsection \<open>The hook\<close>

lemma useScrollAnimation_unfold:
  "useScrollAnimation h sel visibleClass opts s
     = effect h sel (resolve_class visibleClass) (resolve_options opts) (run_cleanup s)"
  by (simp add: useScrollAnimation_def)


lemma useScrollAnimation_first:
  assumes "observerRef s = None" and "useScrollAnimation h sel visibleClass opts s = Inr s'"
  shows "\<exists>ob'. observerRef s' = Some ob'
           \<and> settings ob' = (constructed s,
                \<lparr>cb_visibleClass = resolve_class visibleClass, cb_options = resolve_options opts\<rparr>,
                threshold_list (threshold (resolve_options opts)),
                rootMargin_or_default (rootMargin (resolve_options opts)))
           \<and> constructed s' = Suc (constructed s)"
proof -
  have "observerRef (run_cleanup s) = None" using assms(1) by simp
  from effect_new_settings [OF this assms(2) [unfolded useScrollAnimation_unfold]]
  show ?thesis by simp
qed

lemma useScrollAnimation_reuse:
  assumes "observerRef s = Some ob" and "useScrollAnimation h sel visibleClass opts s = Inr s'"
  shows "\<exists>ob'. observerRef s' = Some ob' \<and> settings ob' = settings ob
           \<and> constructed s' = constructed s"
proof -
  from run_cleanup_Some [OF assms(1)] obtain ob1 where
    ob1: "observerRef (run_cleanup s) = Some ob1" "settings ob1 = settings ob" by blast
  from effect_reuse_settings [OF ob1(1) assms(2) [unfolded useScrollAnimation_unfold]] ob1(2)
  show ?thesis by simp
qed

lemma useScrollAnimation_grows:
  assumes "useScrollAnimation h sel visibleClass opts s = Inr s'"
  shows "page s t \<subseteq> page s' t"
  using effect_grows [OF assms [unfolded useScrollAnimation_unfold], of t] by simp

subsection \<open>Events and sessions\<close>

lemma on_world_None [simp]: "observerRef s = None \<Longrightarrow> on_world f s = s"
  by (simp add: on_world_def)

lemma on_world_Some:
  "observerRef s = Some ob \<Longrightarrow>
   on_world f s = s\<lparr>page := classList (f \<lparr>classList = page s, engine = ob\<rparr>),
                    observerRef := Some (engine (f \<lparr>classList = page s, engine = ob\<rparr>))\<rparr>"
  by (simp add: on_world_def Let_def)

lemma host_events_reuse:
  assumes "observerRef s = Some ob"
  shows "\<exists>ob'. observerRef (host_events evs s) = Some ob' \<and> settings ob' = settings ob
           \<and> constructed (host_events evs s) = constructed s"
  by (simp add: host_events_def on_world_Some [OF assms])

lemma host_events_None [simp]: "observerRef s = None \<Longrightarrow> host_events evs s = s"
  by (simp add: host_events_def)



lemma mount_simps [simp]:
  "observerRef (mount p) = None" "constructed (mount p) = 0" "page (mount p) = p"
  "cleanup (mount p) = None"
  by (simp_all add: mount_def)


lemma run_session_reuse:
  "observerRef s = Some ob \<Longrightarrow> run_session acts s = Inr s' \<Longrightarrow>
   \<exists>ob'. observerRef s' = Some ob' \<and> settings ob' = settings ob \<and> constructed s' = constructed s"
proof (induction acts s arbitrary: ob rule: run_session.induct)
  case (1 s)
  then show ?case by simp
next
  case (2 h sel v opts acts s)
  from "2.prems"(2) obtain s1 where
    s1: "useScrollAnimation h sel v opts s = Inr s1" and rest: "run_session acts s1 = Inr s'"
    by (auto split: sum.splits)
  from useScrollAnimation_reuse [OF "2.prems"(1) s1] obtain ob1 where
    ob1: "observerRef s1 = Some ob1" "settings ob1 = settings ob" "constructed s1 = constructed s"
    by blast
  from "2.IH" [OF s1 ob1(1) rest] ob1 show ?case by simp
next
  case (3 ev acts s)
  from host_events_reuse [OF "3.prems"(1), of "[ev]"] obtain ob1 where
    ob1: "observerRef (host_events [ev] s) = Some ob1" "settings ob1 = settings ob"
      "constructed (host_events [ev] s) = constructed s"
    by blast
  from "3.prems"(2) have "run_session acts (host_events [ev] s) = Inr s'" by simp
  from "3.IH" [OF ob1(1) this] ob1 show ?case by simp
qed



lemma host_events_once_keeps:
  assumes "observerRef s = Some ob" and "truthy (triggerOnce (cb_options (callback ob)))"
  shows "page s t \<subseteq> page (host_events evs s) t"
  using host_run_once_keeps [of "\<lparr>classList = page s, engine = ob\<rparr>" t evs] assms(2)
  by (simp add: host_events_def on_world_Some [OF assms(1)])

lemma run_session_once_keeps:
  "observerRef s = Some ob \<Longrightarrow> truthy (triggerOnce (cb_options (callback ob))) \<Longrightarrow>
   run_session acts s = Inr s' \<Longrightarrow> page s t \<subseteq> page s' t"
proof (induction acts s arbitrary: ob rule: run_session.induct)
  case (1 s)
  then show ?case by simp
next
  case (2 h sel v opts acts s)
  from "2.prems"(3) obtain s1 where
    s1: "useScrollAnimation h sel v opts s = Inr s1" and rest: "run_session acts s1 = Inr s'"
    by (auto split: sum.splits)
  from useScrollAnimation_reuse [OF "2.prems"(1) s1] obtain ob1 where
    ob1: "observerRef s1 = Some ob1" "settings ob1 = settings ob"
    by blast
  have cb: "truthy (triggerOnce (cb_options (callback ob1)))"
    using "2.prems"(2) callback_of_settings [OF ob1(2)] by simp
  have "page s t \<subseteq> page s1 t"
    using s1 by (rule useScrollAnimation_grows)
  also have "\<dots> \<subseteq> page s' t"
    using "2.IH" [OF s1 ob1(1) cb rest] .
  finally show ?case .
next
  case (3 ev acts s)
  from host_events_reuse [OF "3.prems"(1), of "[ev]"] obtain ob1 where
    ob1: "observerRef (host_events [ev] s) = Some ob1" "settings ob1 = settings ob"
    by blast
  have cb: "truthy (triggerOnce (cb_options (callback ob1)))"
    using "3.prems"(2) callback_of_settings [OF ob1(2)] by simp
  from "3.prems"(3) have rest: "run_session acts (host_events [ev] s) = Inr s'" by simp
  have "page s t \<subseteq> page (host_events [ev] s) t"
    using "3.prems"(1,2) by (rule host_events_once_keeps)
  also have "\<dots> \<subseteq> page s' t"
    using "3.IH" [OF ob1(1) cb rest] .
  finally show ?case .
qed

lemma session_first_render:
  assumes "run_session (Render h sel v opts # acts) (mount p) = Inr s"
  shows "\<exists>ob. observerRef s = Some ob
           \<and> settings ob = (0, \<lparr>cb_visibleClass = resolve_class v, cb_options = resolve_options opts\<rparr>,
                             threshold_list (threshold (resolve_options opts)),
                             rootMargin_or_default (rootMargin (resolve_options opts)))
           \<and> constructed s = 1"
proof -
  from assms obtain s1 where
    s1: "useScrollAnimation h sel v opts (mount p) = Inr s1" and rest: "run_session acts s1 = Inr s"
    by (auto split: sum.splits)
  have "observerRef (mount p) = None" by simp
  from useScrollAnimation_first [OF this s1] obtain ob1 where
    ob1: "observerRef s1 = Some ob1"
      "settings ob1 = (0, \<lparr>cb_visibleClass = resolve_class v, cb_options = resolve_options opts\<rparr>,
                         threshold_list (threshold (resolve_options opts)),
                         rootMargin_or_default (rootMargin (resolve_options opts)))"
      "constructed s1 = 1"
    by auto
  from run_session_reuse [OF ob1(1) rest] ob1(2,3) show ?thesis by auto
qed

subsection \<open>The first activation\<close>

lemma first_activation_marks_nothing:
  assumes "useScrollAnimation h sel v opts (mount p) = Inr s"
  shows "page s = p
         \<and> (\<exists>ts ob. querySelectorAll h sel = Some ts \<and> observerRef s = Some ob
               \<and> set (observationTargets ob) = set ts)"
proof -
  have m: "run_cleanup (mount p) = mount p"
    by (simp add: run_cleanup_def mount_def)
  from assms have "effect h sel (resolve_class v) (resolve_options opts) (mount p) = Inr s"
    by (simp add: useScrollAnimation_def m)
  from effect_Inr [OF this] obtain ob n ts w where
    co: "current_observer h (resolve_class v) (resolve_options opts) (mount p) = Inr (ob, n)"
    and ts: "querySelectorAll h sel = Some ts"
    and at: "attach (resolve_class v) (resolve_options opts) ts \<lparr>classList = page (mount p), engine = ob\<rparr>
               = Inr w"
    and s: "s = \<lparr>page = classList w, observerRef = Some (engine w),
                 cleanup = Some ts, constructed = n\<rparr>"
    by blast
  from current_observer_new [OF _ co]
  have ob: "ob = new_IntersectionObserver 0 (resolve_class v) (resolve_options opts)" by simp
  have "queuedEntries (engine \<lparr>classList = page (mount p), engine = ob\<rparr>) = []"
    by (simp add: ob new_IntersectionObserver_def)
  from attach_fresh [OF this, of "resolve_class v" "resolve_options opts" ts] at ts s
  show ?thesis by (auto simp: ob new_IntersectionObserver_def)
qed

subsection \<open>Unfolding for the examples\<close>

lemmas run_defs = useScrollAnimation_def effect_def current_observer_def run_cleanup_def mount_def
  on_target_def takeRecords_def alreadyVisible_def observe_def unobserve_def classList_add_def
  classList_remove_def check_token_def ascii_whitespace_def new_IntersectionObserver_def
  host_events_def on_world_def crossing_def notify_def on_entry_def truthy_def
  default_options_def threshold_list_def rootMargin_or_default_def resolve_class_def
  resolve_options_def Let_def entries_of_def

lemmas example_defs = browser_def legacy_browser_def once_options_def toggle_options_def
  threshold_only_def triggerOnce_only_def margin_options_def other_margin_options_def
  blank_def example_observer_def enters_def leaves_def

section \<open>The claims\<close>

text \<open>
  C1. The claim: every target that already intersects when the hook is activated gets
  the marker at once, without waiting for an event, and with \<^verbatim>\<open>triggerOnce\<close> it is not
  subscribed. The code decides \<^verbatim>\<open>alreadyVisible\<close> from \<^verbatim>\<open>observer.takeRecords()\<close>, and
  an observer that has just been constructed has no records: by
  \<open>first_activation_marks_nothing\<close> the first activation changes no class list and
  subscribes every target, whatever is visible. Evaluated on the specification's
  scenario (\<^verbatim>\<open>.x\<close> matches 0 and 1, \<^verbatim>\<open>{threshold: 0.5, triggerOnce: true}\<close>, element 0
  visible): after the activation element 0 has no marker and is observed; the marker
  comes only with the observer's first report. And in a re-evaluation that finds queued
  entries for both elements as intersecting, only the first target walked gets the
  marker, because its call of \<^verbatim>\<open>takeRecords\<close> empties the queue: element 1 is subscribed
  without the marker.
\<close>

theorem already_visible_target_not_marked:
  "useScrollAnimation browser ''.x'' (Some ''is-visible'') (Some once_options) (mount blank)
     = Inr \<lparr>page = blank, observerRef = Some (example_observer once_options [0, 1] []),
            cleanup = Some [0, 1], constructed = 1\<rparr>
   \<and> run_session
       [Render browser ''.x'' (Some ''is-visible'') (Some once_options),
        Host (Crossing 0 True), Host (Crossing 1 False), Host Notify]
       (mount blank)
     = Inr \<lparr>page = blank(0 := {''is-visible''}),
            observerRef = Some (example_observer once_options [1] []),
            cleanup = Some [0, 1], constructed = 1\<rparr>
   \<and> run_session
       [Render browser ''.x'' (Some ''is-visible'') (Some once_options),
        Host (Crossing 0 True), Host (Crossing 1 True),
        Render browser ''.x'' (Some ''is-visible'') (Some once_options)]
       (mount blank)
     = Inr \<lparr>page = blank(0 := {''is-visible''}),
            observerRef = Some (example_observer once_options [1] []),
            cleanup = Some [0, 1], constructed = 1\<rparr>"
  by (simp add: run_defs example_defs)

text \<open>
  C2. The claim: each of the class name and the fields \<^verbatim>\<open>threshold\<close>,
  \<^verbatim>\<open>triggerOnce\<close>, \<^verbatim>\<open>rootMargin\<close> has its default when it is left out, also in an options
  object that gives some fields only. The code's default is for the whole \<^verbatim>\<open>options\<close>
  argument. Evaluated with \<^verbatim>\<open>{threshold: 0.5}\<close>: element 0 enters and leaves, the marker
  is removed again and the element is still observed, which is the behaviour of
  \<^verbatim>\<open>triggerOnce: false\<close>; with \<^verbatim>\<open>triggerOnce: true\<close> written out the marker stays and the
  element is released. Evaluated with \<^verbatim>\<open>{triggerOnce: true}\<close>: the observer is
  constructed with the threshold 0, not 0.1.
\<close>

theorem partial_options_lose_defaults:
  "run_session
     [Render browser ''.x'' None (Some threshold_only),
      Host (Crossing 0 True), Host Notify, Host (Crossing 0 False), Host Notify]
     (mount blank)
     = Inr \<lparr>page = blank(0 := {}),
            observerRef = Some (example_observer threshold_only [0, 1] []),
            cleanup = Some [0, 1], constructed = 1\<rparr>
   \<and> run_session
       [Render browser ''.x'' None (Some once_options),
        Host (Crossing 0 True), Host Notify, Host (Crossing 0 False), Host Notify]
       (mount blank)
     = Inr \<lparr>page = blank(0 := {''is-visible''}),
            observerRef = Some (example_observer once_options [1] []),
            cleanup = Some [0, 1], constructed = 1\<rparr>
   \<and> thresholds (example_observer triggerOnce_only [] []) = [0]
   \<and> thresholds (example_observer default_options [] []) = [1 / 10]
   \<and> useScrollAnimation browser ''.x'' None (Some triggerOnce_only) (mount blank)
     = Inr \<lparr>page = blank, observerRef = Some (example_observer triggerOnce_only [0, 1] []),
            cleanup = Some [0, 1], constructed = 1\<rparr>"
  by (simp add: run_defs example_defs)

text \<open>
  C3. As stated, with \<^verbatim>\<open>triggerOnce\<close> true in the options the hook is called with, the
  claim fails: the observer keeps the callback of the effect run that constructed it
  (the guard of line 26), and that callback reads the options of that run. In a session
  that begins with \<^verbatim>\<open>triggerOnce: false\<close> and is re-evaluated with \<^verbatim>\<open>triggerOnce: true\<close>,
  element 0 enters: the callback adds the marker and does not release the element; it
  leaves: the callback removes the marker.
\<close>

theorem one_shot_stale_callback:
  "run_session
     [Render browser ''.x'' None (Some toggle_options),
      Render browser ''.x'' None (Some once_options),
      Host (Crossing 0 True), Host Notify]
     (mount blank)
     = Inr \<lparr>page = blank(0 := {''is-visible''}),
            observerRef = Some (example_observer toggle_options [0, 1] []),
            cleanup = Some [0, 1], constructed = 1\<rparr>
   \<and> run_session
       [Render browser ''.x'' None (Some toggle_options),
        Render browser ''.x'' None (Some once_options),
        Host (Crossing 0 True), Host Notify, Host (Crossing 0 False), Host Notify]
       (mount blank)
     = Inr \<lparr>page = blank(0 := {}),
            observerRef = Some (example_observer toggle_options [0, 1] []),
            cleanup = Some [0, 1], constructed = 1\<rparr>"
  by (simp add: run_defs example_defs)

text \<open>
  C3, amended. In a session whose first call of the hook has \<^verbatim>\<open>triggerOnce\<close> true and a
  class name that is a class token (the callback can add no other), at any later moment
  of the session: when the observer delivers a queue that holds an intersecting entry
  for an element, the element has the marker afterwards; it is then unobserved, and
  until the hook is evaluated again, whatever the observer does (crossings of any
  element, deliveries) leaves it unobserved and its classes as they are; no class of
  any element is ever taken away in the rest of the session, re-evaluations with other
  options included; so the marker stays for good.
\<close>

theorem one_shot_session:
  assumes "run_session (Render h sel v opts # acts) (mount p) = Inr s"
    and "triggerOnce (resolve_options opts) = Some True"
    and "check_token (resolve_class v) = None"
    and "observerRef s = Some ob"
    and "e \<in> set (queuedEntries ob)"
    and "isIntersecting e"
  shows "resolve_class v \<in> page (host_events [Notify] s) (target e)
         \<and> (\<forall>evs. \<exists>ob'. observerRef (host_events evs (host_events [Notify] s)) = Some ob'
                \<and> target e \<notin> set (observationTargets ob')
                \<and> page (host_events evs (host_events [Notify] s)) (target e)
                    = page (host_events [Notify] s) (target e))
         \<and> (\<forall>acts' s' t. run_session acts' s = Inr s' \<longrightarrow> page s t \<subseteq> page s' t)
         \<and> (\<forall>acts' s'. run_session acts' (host_events [Notify] s) = Inr s'
                \<longrightarrow> resolve_class v \<in> page s' (target e))"
proof -
  let ?w = "\<lparr>classList = page s, engine = ob\<rparr>"
  from session_first_render [OF assms(1)] assms(4)
  have cb: "callback ob = \<lparr>cb_visibleClass = resolve_class v, cb_options = resolve_options opts\<rparr>"
    by (auto simp: settings_def)
  have once: "truthy (triggerOnce (cb_options (callback (engine ?w))))"
    and token: "check_token (cb_visibleClass (callback (engine ?w))) = None"
    and queued: "e \<in> set (queuedEntries (engine ?w))"
    using assms(2,3,5) by (simp_all add: cb truthy_def)
  from notify_once_enter [OF once token queued assms(6)]
  have marked: "resolve_class v \<in> classList (notify ?w) (target e)"
    and rel: "released (target e) (notify ?w)"
    by (simp_all add: cb)
  have n: "host_events [Notify] s
             = s\<lparr>page := classList (notify ?w), observerRef := Some (engine (notify ?w))\<rparr>"
    by (simp add: host_events_def on_world_Some [OF assms(4)])
  have first: "resolve_class v \<in> page (host_events [Notify] s) (target e)"
    using marked by (simp add: n)
  have later: "\<exists>ob'. observerRef (host_events evs (host_events [Notify] s)) = Some ob'
                \<and> target e \<notin> set (observationTargets ob')
                \<and> page (host_events evs (host_events [Notify] s)) (target e)
                    = page (host_events [Notify] s) (target e)" for evs
  proof -
    have o: "observerRef (host_events [Notify] s) = Some (engine (notify ?w))"
      by (simp add: n)
    have w: "\<lparr>classList = page (host_events [Notify] s), engine = engine (notify ?w)\<rparr> = notify ?w"
      by (simp add: n)
    have "host_events evs (host_events [Notify] s)
            = (host_events [Notify] s)\<lparr>page := classList (host_run evs (notify ?w)),
                 observerRef := Some (engine (host_run evs (notify ?w)))\<rparr>"
      unfolding host_events_def [of evs] on_world_Some [OF o] w ..
    with host_run_released [OF rel, of evs] show ?thesis
      by (simp add: n released_def)
  qed
  have grows: "page s t \<subseteq> page s' t" if "run_session acts' s = Inr s'" for acts' s' t
    using assms(4) _ that by (rule run_session_once_keeps) (simp add: cb assms(2) truthy_def)
  have stays: "resolve_class v \<in> page s' (target e)"
    if "run_session acts' (host_events [Notify] s) = Inr s'" for acts' s'
  proof -
    from host_events_reuse [OF assms(4), of "[Notify]"] obtain ob1 where
      ob1: "observerRef (host_events [Notify] s) = Some ob1" "settings ob1 = settings ob"
      by blast
    have "truthy (triggerOnce (cb_options (callback ob1)))"
      using callback_of_settings [OF ob1(2)] assms(2) by (simp add: cb truthy_def)
    from run_session_once_keeps [OF ob1(1) this that, of "target e"] first
    show ?thesis by auto
  qed
  show ?thesis using first later grows stays by blast
qed

theorem one_shot_session_witness:
  "run_session
     [Render browser ''.x'' None (Some once_options), Host (Crossing 0 True)]
     (mount blank)
     = Inr \<lparr>page = blank, observerRef = Some (example_observer once_options [0, 1] [enters 0]),
            cleanup = Some [0, 1], constructed = 1\<rparr>
   \<and> triggerOnce (resolve_options (Some once_options)) = Some True
   \<and> check_token (resolve_class None) = None
   \<and> enters 0 \<in> set (queuedEntries (example_observer once_options [0, 1] [enters 0]))
   \<and> isIntersecting (enters 0)
   \<and> host_events [Notify]
        \<lparr>page = blank, observerRef = Some (example_observer once_options [0, 1] [enters 0]),
         cleanup = Some [0, 1], constructed = 1\<rparr>
     = \<lparr>page = blank(0 := {''is-visible''}),
        observerRef = Some (example_observer once_options [1] []),
        cleanup = Some [0, 1], constructed = 1\<rparr>
   \<and> page (host_events [Crossing 0 False, Notify, Crossing 0 True, Notify]
        (host_events [Notify]
          \<lparr>page = blank, observerRef = Some (example_observer once_options [0, 1] [enters 0]),
           cleanup = Some [0, 1], constructed = 1\<rparr>)) 0 = {''is-visible''}
   \<and> run_session
       [Render browser ''.x'' (Some ''shown'') (Some toggle_options),
        Host (Crossing 0 True), Host (Crossing 0 False), Host Notify]
       (host_events [Notify]
          \<lparr>page = blank, observerRef = Some (example_observer once_options [0, 1] [enters 0]),
           cleanup = Some [0, 1], constructed = 1\<rparr>)
     = Inr \<lparr>page = blank(0 := {''is-visible''}),
            observerRef = Some (example_observer once_options [1] []),
            cleanup = Some [0, 1], constructed = 1\<rparr>"
proof -
  let ?s = "\<lparr>page = blank, observerRef = Some (example_observer once_options [0, 1] [enters 0]),
             cleanup = Some [0, 1], constructed = 1\<rparr>"
  let ?s' = "\<lparr>page = blank(0 := {''is-visible''}),
              observerRef = Some (example_observer once_options [1] []),
              cleanup = Some [0, 1], constructed = 1\<rparr>"
  have h1: "run_session (Render browser ''.x'' None (Some once_options) # [Host (Crossing 0 True)])
              (mount blank) = Inr ?s"
    by (simp add: run_defs example_defs)
  have h2: "triggerOnce (resolve_options (Some once_options)) = Some True"
    by (simp add: run_defs example_defs)
  have h3: "check_token (resolve_class None) = None"
    by (simp add: run_defs)
  have h4: "observerRef ?s = Some (example_observer once_options [0, 1] [enters 0])"
    by simp
  have h5: "enters 0 \<in> set (queuedEntries (example_observer once_options [0, 1] [enters 0]))"
    by (simp add: example_defs)
  have h6: "isIntersecting (enters 0)"
    by (simp add: enters_def)
  have n: "host_events [Notify] ?s = ?s'"
    by (simp add: run_defs example_defs)
  have r: "run_session
       [Render browser ''.x'' (Some ''shown'') (Some toggle_options),
        Host (Crossing 0 True), Host (Crossing 0 False), Host Notify]
       (host_events [Notify] ?s) = Inr ?s'"
    unfolding n by (simp add: run_defs example_defs)
  note inst = one_shot_session [OF h1 h2 h3 h4 h5 h6]
  from inst have "\<forall>evs. \<exists>ob'. observerRef (host_events evs (host_events [Notify] ?s)) = Some ob'
                \<and> target (enters 0) \<notin> set (observationTargets ob')
                \<and> page (host_events evs (host_events [Notify] ?s)) (target (enters 0))
                    = page (host_events [Notify] ?s) (target (enters 0))"
    by (elim conjE)
  then have "page (host_events [Crossing 0 False, Notify, Crossing 0 True, Notify]
                (host_events [Notify] ?s)) (target (enters 0))
               = page (host_events [Notify] ?s) (target (enters 0))"
    by blast
  then have later: "page (host_events [Crossing 0 False, Notify, Crossing 0 True, Notify]
                (host_events [Notify] ?s)) 0 = {''is-visible''}"
    unfolding n by (simp add: enters_def)
  from inst r have "resolve_class None \<in> page ?s' (target (enters 0))"
    by blast
  with h1 h2 h3 h5 h6 n later r show ?thesis by simp
qed

text \<open>
  C4. As stated, with \<^verbatim>\<open>triggerOnce\<close> false in the options the hook is called with, the
  claim fails in two ways. The observer keeps the callback of the run that constructed
  it: in a session that begins with \<^verbatim>\<open>triggerOnce: true\<close> and is re-evaluated with
  \<^verbatim>\<open>triggerOnce: false\<close>, element 0 enters and leaves, both entries are delivered, and
  the marker is there after the leaving entry and the element is released. And a class
  name that is no class token cannot be added: with the empty string, the entering
  entry is delivered and the callback throws on line 14, the class list stays empty.
\<close>

theorem toggle_stale_callback:
  "run_session
     [Render browser ''.x'' None (Some once_options),
      Render browser ''.x'' None (Some toggle_options),
      Host (Crossing 0 True), Host (Crossing 0 False), Host Notify]
     (mount blank)
     = Inr \<lparr>page = blank(0 := {''is-visible''}),
            observerRef = Some (example_observer once_options [1] []),
            cleanup = Some [0, 1], constructed = 1\<rparr>
   \<and> run_session
       [Render browser ''.x'' (Some []) (Some toggle_options),
        Host (Crossing 0 True), Host Notify]
       (mount blank)
     = Inr \<lparr>page = blank,
            observerRef = Some ((new_IntersectionObserver 0 [] toggle_options)
                                  \<lparr>observationTargets := [0, 1]\<rparr>),
            cleanup = Some [0, 1], constructed = 1\<rparr>
   \<and> intersectionCallback \<lparr>cb_visibleClass = [], cb_options = toggle_options\<rparr> [enters 0]
        \<lparr>classList = blank, engine = example_observer toggle_options [0, 1] []\<rparr>
     = (\<lparr>classList = blank, engine = example_observer toggle_options [0, 1] []\<rparr>,
        Some SyntaxError)"
  by (simp add: run_defs example_defs)

text \<open>
  C4, amended. In a session whose first call of the hook has \<^verbatim>\<open>triggerOnce\<close> false (or
  none) and a class name that is a class token, at any later moment of the session and
  for any events of the observer from there on (crossings and deliveries, in any number
  and order): an element for which an entry has been delivered in their course has the
  marker exactly if the last entry delivered for it was intersecting, and the observer
  observes what it observed before them, so the cycles can go on without end.
\<close>

theorem toggle_session:
  assumes "run_session (Render h sel v opts # acts) (mount p) = Inr s"
    and "triggerOnce (resolve_options opts) \<noteq> Some True"
    and "check_token (resolve_class v) = None"
    and "observerRef s = Some ob"
    and "entries_of t (delivered evs \<lparr>classList = page s, engine = ob\<rparr>) \<noteq> []"
  shows "(resolve_class v \<in> page (host_events evs s) t)
           = isIntersecting (last (entries_of t (delivered evs \<lparr>classList = page s, engine = ob\<rparr>)))
         \<and> (\<exists>ob'. observerRef (host_events evs s) = Some ob'
               \<and> observationTargets ob' = observationTargets ob)"
proof -
  let ?w = "\<lparr>classList = page s, engine = ob\<rparr>"
  let ?c = "\<lparr>cb_visibleClass = resolve_class v, cb_options = resolve_options opts\<rparr>"
  from session_first_render [OF assms(1)] assms(4)
  have cb0: "callback ob = ?c"
    by (auto simp: settings_def)
  then have cb: "callback (engine ?w) = ?c"
    by simp
  have toggle: "\<not> truthy (triggerOnce (cb_options ?c))"
    and token: "check_token (cb_visibleClass ?c) = None"
    using assms(2,3) by (simp_all add: truthy_def)
  from host_run_toggle_marker [OF toggle token cb, of evs t] assms(5)
  have marker: "(resolve_class v \<in> classList (host_run evs ?w) t)
                  = isIntersecting (last (entries_of t (delivered evs ?w)))"
    by simp
  have "observationTargets (engine (host_run evs ?w)) = observationTargets (engine ?w)"
    using toggle by (intro host_run_toggle_targets) (simp add: cb0)
  with marker show ?thesis
    by (simp add: host_events_def on_world_Some [OF assms(4)])
qed

theorem toggle_session_witness:
  "run_session [Render browser ''.x'' None (Some toggle_options)] (mount blank)
     = Inr \<lparr>page = blank, observerRef = Some (example_observer toggle_options [0, 1] []),
            cleanup = Some [0, 1], constructed = 1\<rparr>
   \<and> triggerOnce (resolve_options (Some toggle_options)) \<noteq> Some True
   \<and> check_token (resolve_class None) = None
   \<and> delivered
        [Crossing 0 True, Notify, Crossing 0 False, Notify, Crossing 0 True, Notify,
         Crossing 0 False, Notify, Crossing 0 True, Notify]
        \<lparr>classList = blank, engine = example_observer toggle_options [0, 1] []\<rparr>
     = [enters 0, leaves 0, enters 0, leaves 0, enters 0]
   \<and> host_events
        [Crossing 0 True, Notify, Crossing 0 False, Notify, Crossing 0 True, Notify,
         Crossing 0 False, Notify, Crossing 0 True, Notify]
        \<lparr>page = blank, observerRef = Some (example_observer toggle_options [0, 1] []),
         cleanup = Some [0, 1], constructed = 1\<rparr>
     = \<lparr>page = blank(0 := {''is-visible''}),
        observerRef = Some (example_observer toggle_options [0, 1] []),
        cleanup = Some [0, 1], constructed = 1\<rparr>
   \<and> host_events
        [Crossing 0 True, Notify, Crossing 0 False, Notify, Crossing 0 True, Notify,
         Crossing 0 False, Notify]
        \<lparr>page = blank, observerRef = Some (example_observer toggle_options [0, 1] []),
         cleanup = Some [0, 1], constructed = 1\<rparr>
     = \<lparr>page = blank(0 := {}),
        observerRef = Some (example_observer toggle_options [0, 1] []),
        cleanup = Some [0, 1], constructed = 1\<rparr>"
proof -
  let ?s = "\<lparr>page = blank, observerRef = Some (example_observer toggle_options [0, 1] []),
             cleanup = Some [0, 1], constructed = 1\<rparr>"
  let ?w = "\<lparr>classList = blank, engine = example_observer toggle_options [0, 1] []\<rparr>"
  let ?five = "[Crossing 0 True, Notify, Crossing 0 False, Notify, Crossing 0 True, Notify,
                Crossing 0 False, Notify, Crossing 0 True, Notify]"
  have h1: "run_session (Render browser ''.x'' None (Some toggle_options) # []) (mount blank) = Inr ?s"
    by (simp add: run_defs example_defs)
  have h2: "triggerOnce (resolve_options (Some toggle_options)) \<noteq> Some True"
    by (simp add: run_defs example_defs)
  have h3: "check_token (resolve_class None) = None"
    by (simp add: run_defs)
  have h4: "observerRef ?s = Some (example_observer toggle_options [0, 1] [])"
    by simp
  have d: "delivered ?five ?w = [enters 0, leaves 0, enters 0, leaves 0, enters 0]"
    by (simp add: run_defs example_defs)
  have h5: "entries_of 0 (delivered ?five
              \<lparr>classList = page ?s, engine = example_observer toggle_options [0, 1] []\<rparr>) \<noteq> []"
    using d by (simp add: entries_of_def enters_def)
  from toggle_session [OF h1 h2 h3 h4 h5]
  have "(resolve_class None \<in> page (host_events ?five ?s) 0)
          = isIntersecting (last (entries_of 0 (delivered ?five ?w)))"
    by simp
  then show ?thesis using h1 h2 h3 d
    by (simp add: run_defs example_defs)
qed




text \<open>
  C6. Before the first effect run the ref is \<^verbatim>\<open>null\<close> and no observer has been
  constructed. In a session that starts with a call of the hook, whatever follows
  (calls with new dependencies, events of the observer), the ref holds the observer of
  the first construction and one observer has been constructed in all. A call of the hook
  that finds an observer in the ref keeps that one and constructs none, whether or not
  it observes anything.
\<close>

theorem engine_created_once_and_reused:
  assumes "run_session (Render h sel v opts # acts) (mount p) = Inr s"
  shows "observerRef (mount p) = None \<and> constructed (mount p) = 0
         \<and> (\<exists>ob. observerRef s = Some ob \<and> oid ob = 0 \<and> constructed s = 1)
         \<and> (\<forall>h' sel' v' opts' s0 ob0 s1.
               observerRef s0 = Some ob0 \<longrightarrow> useScrollAnimation h' sel' v' opts' s0 = Inr s1
               \<longrightarrow> (\<exists>ob1. observerRef s1 = Some ob1 \<and> oid ob1 = oid ob0)
                   \<and> constructed s1 = constructed s0)"
proof -
  from session_first_render [OF assms]
  have first: "\<exists>ob. observerRef s = Some ob \<and> oid ob = 0 \<and> constructed s = 1"
    by (auto simp: settings_def)
  have again: "(\<exists>ob1. observerRef s1 = Some ob1 \<and> oid ob1 = oid ob0) \<and> constructed s1 = constructed s0"
    if "observerRef s0 = Some ob0" and "useScrollAnimation h' sel' v' opts' s0 = Inr s1"
    for h' sel' v' opts' s0 ob0 s1
    using useScrollAnimation_reuse [OF that] by (auto simp: settings_def)
  show ?thesis using first again by simp
qed

theorem engine_created_once_and_reused_witness:
  "run_session
     [Render browser ''.x'' None (Some once_options), Host (Crossing 0 True), Host Notify,
      Render browser ''.x'' (Some ''shown'') (Some toggle_options)]
     (mount blank)
     = Inr \<lparr>page = blank(0 := {''is-visible''}),
            observerRef = Some (example_observer once_options [0, 1] []),
            cleanup = Some [0, 1], constructed = 1\<rparr>
   \<and> observerRef (mount blank) = None
   \<and> oid (example_observer once_options [0, 1] []) = 0
   \<and> useScrollAnimation browser ''.x'' (Some ''shown'') (Some toggle_options)
        \<lparr>page = blank, observerRef = Some (example_observer once_options [0, 1] []),
         cleanup = Some [0, 1], constructed = 1\<rparr>
     = Inr \<lparr>page = blank, observerRef = Some (example_observer once_options [0, 1] []),
            cleanup = Some [0, 1], constructed = 1\<rparr>"
proof -
  let ?s = "\<lparr>page = blank(0 := {''is-visible''}),
             observerRef = Some (example_observer once_options [0, 1] []),
             cleanup = Some [0, 1], constructed = 1\<rparr>"
  let ?s1 = "\<lparr>page = blank, observerRef = Some (example_observer once_options [0, 1] []),
              cleanup = Some [0, 1], constructed = 1\<rparr>"
  have h: "run_session
     (Render browser ''.x'' None (Some once_options) # [Host (Crossing 0 True), Host Notify,
      Render browser ''.x'' (Some ''shown'') (Some toggle_options)])
     (mount blank) = Inr ?s"
    by (simp add: run_defs example_defs)
  have r: "useScrollAnimation browser ''.x'' (Some ''shown'') (Some toggle_options) ?s1 = Inr ?s1"
    by (simp add: run_defs example_defs)
  have o: "observerRef ?s1 = Some (example_observer once_options [0, 1] [])"
    by simp
  from engine_created_once_and_reused [OF h] o r
  have "observerRef (mount blank) = None \<and> constructed ?s1 = constructed ?s1"
    by blast
  then show ?thesis using h r by (simp add: example_defs new_IntersectionObserver_def)
qed

text \<open>
  C7. When the selector matches no element, in a host that has the observer, the call
  of the hook succeeds, leaves every class list as it is and subscribes nothing: the
  observer is the one left by the cleanup of the previous run, or a new one that observes
  nothing, and the cleanup it returns has no target.
\<close>

theorem no_targets_no_subscription:
  assumes "querySelectorAll h sel = Some []" and "has_IntersectionObserver h"
  shows "\<exists>s'. useScrollAnimation h sel v opts s = Inr s'
           \<and> page s' = page s
           \<and> cleanup s' = Some []
           \<and> observerRef s' = Some (case observerRef (run_cleanup s) of
                 None \<Rightarrow> new_IntersectionObserver (constructed s) (resolve_class v) (resolve_options opts)
               | Some ob \<Rightarrow> ob)
           \<and> observationTargets (new_IntersectionObserver (constructed s) (resolve_class v)
                 (resolve_options opts)) = []"
  using effect_no_targets [OF assms, of "resolve_class v" "resolve_options opts" "run_cleanup s"]
  by (simp add: useScrollAnimation_def new_IntersectionObserver_def cong: option.case_cong)

theorem no_targets_no_subscription_witness:
  "querySelectorAll browser ''.none'' = Some []
   \<and> has_IntersectionObserver browser
   \<and> useScrollAnimation browser ''.none'' None None (mount blank)
     = Inr \<lparr>page = blank, observerRef = Some (example_observer default_options [] []),
            cleanup = Some [], constructed = 1\<rparr>
   \<and> useScrollAnimation browser ''.none'' None None
        \<lparr>page = blank, observerRef = Some (example_observer default_options [0, 1] []),
         cleanup = Some [0, 1], constructed = 1\<rparr>
     = Inr \<lparr>page = blank, observerRef = Some (example_observer default_options [] []),
            cleanup = Some [], constructed = 1\<rparr>"
proof -
  have q: "querySelectorAll browser ''.none'' = Some []"
    and c: "has_IntersectionObserver browser"
    by (simp_all add: browser_def)
  from no_targets_no_subscription [OF q c, of None None "mount blank"]
  have "\<exists>s'. useScrollAnimation browser ''.none'' None None (mount blank) = Inr s'
          \<and> page s' = page (mount blank)"
    by blast
  then show ?thesis using q c by (simp add: run_defs example_defs)
qed

text \<open>
  C8. In a host without \<^verbatim>\<open>IntersectionObserver\<close>, a call of the hook with the ref still
  \<^verbatim>\<open>null\<close> throws a \<^verbatim>\<open>ReferenceError\<close> where the observer would be constructed, before
  the selector is looked at; so does every session from its first call on.
\<close>

theorem missing_capability_fails_fast:
  assumes "\<not> has_IntersectionObserver h"
  shows "(observerRef s = None \<longrightarrow> useScrollAnimation h sel v opts s = Inl ReferenceError)
         \<and> run_session (Render h sel v opts # acts) (mount p) = Inl ReferenceError"
proof -
  have "useScrollAnimation h sel v opts s = Inl ReferenceError" if "observerRef s = None" for s
  proof -
    from that have "observerRef (run_cleanup s) = None" by simp
    with assms show ?thesis
      by (simp add: useScrollAnimation_def effect_def current_observer_def del: run_cleanup_None)
  qed
  then show ?thesis by simp
qed

theorem missing_capability_fails_fast_witness:
  "\<not> has_IntersectionObserver legacy_browser
   \<and> observerRef (mount blank) = None
   \<and> useScrollAnimation legacy_browser ''.x'' None None (mount blank) = Inl ReferenceError
   \<and> run_session [Render legacy_browser ''.none'' None None, Host Notify] (mount blank)
       = Inl ReferenceError"
proof -
  have h: "\<not> has_IntersectionObserver legacy_browser"
    by (simp add: legacy_browser_def)
  have m: "observerRef (mount blank) = None"
    by (simp add: mount_def)
  from missing_capability_fails_fast [OF h, of "mount blank" "''.x''" None None]
    missing_capability_fails_fast [OF h, of "mount blank" "''.none''" None None "[Host Notify]" blank]
  show ?thesis using h m by simp
qed

text \<open>
  C9. In a session that starts with a call of the hook, whatever follows, the observer
  in the ref has the thresholds and the root margin of the options of that first call:
  the threshold given (sorted, when it is a list), 0 when the object has none, 0.1 when
  there is no object; the margin given, \<^verbatim>\<open>0px\<close> when it is absent or empty. A call of the
  hook that finds an observer in the ref leaves its thresholds and root margin as they
  are, whatever options it is given.
\<close>

theorem engine_settings_fixed_at_creation:
  assumes "run_session (Render h sel v opts # acts) (mount p) = Inr s"
  shows "(\<exists>ob. observerRef s = Some ob
            \<and> thresholds ob
                = (case opts of
                     None \<Rightarrow> [1 / 10]
                   | Some given \<Rightarrow>
                       (case threshold given of
                          None \<Rightarrow> [0]
                        | Some (Number x) \<Rightarrow> [x]
                        | Some (Numbers xs) \<Rightarrow> (if xs = [] then [0] else sort xs)))
            \<and> init_rootMargin ob
                = (case opts of
                     None \<Rightarrow> ''0px''
                   | Some given \<Rightarrow>
                       (case rootMargin given of
                          None \<Rightarrow> ''0px''
                        | Some m \<Rightarrow> (if m = [] then ''0px'' else m))))
         \<and> (\<forall>h' sel' v' opts' s0 ob0 s1.
               observerRef s0 = Some ob0 \<longrightarrow> useScrollAnimation h' sel' v' opts' s0 = Inr s1
               \<longrightarrow> (\<exists>ob1. observerRef s1 = Some ob1 \<and> thresholds ob1 = thresholds ob0
                          \<and> init_rootMargin ob1 = init_rootMargin ob0))"
proof -
  from session_first_render [OF assms] obtain ob where
    ob: "observerRef s = Some ob"
    and th: "thresholds ob = threshold_list (threshold (resolve_options opts))"
    and rm: "init_rootMargin ob = rootMargin_or_default (rootMargin (resolve_options opts))"
    by (auto simp: settings_def)
  have th': "threshold_list (threshold (resolve_options opts))
      = (case opts of
           None \<Rightarrow> [1 / 10]
         | Some given \<Rightarrow>
             (case threshold given of
                None \<Rightarrow> [0]
              | Some (Number x) \<Rightarrow> [x]
              | Some (Numbers xs) \<Rightarrow> (if xs = [] then [0] else sort xs)))"
    by (simp add: threshold_list_def resolve_options_def default_options_def
        split: option.splits threshold.splits)
  have rm': "rootMargin_or_default (rootMargin (resolve_options opts))
      = (case opts of
           None \<Rightarrow> ''0px''
         | Some given \<Rightarrow>
             (case rootMargin given of
                None \<Rightarrow> ''0px''
              | Some m \<Rightarrow> (if m = [] then ''0px'' else m)))"
    by (simp add: rootMargin_or_default_def resolve_options_def default_options_def
        split: option.splits)
  have again: "\<exists>ob1. observerRef s1 = Some ob1 \<and> thresholds ob1 = thresholds ob0
                          \<and> init_rootMargin ob1 = init_rootMargin ob0"
    if "observerRef s0 = Some ob0" and "useScrollAnimation h' sel' v' opts' s0 = Inr s1"
    for h' sel' v' opts' s0 ob0 s1
    using useScrollAnimation_reuse [OF that] by (auto simp: settings_def)
  from ob th rm again show ?thesis
    unfolding th' rm' by blast
qed

theorem engine_settings_fixed_at_creation_witness:
  "run_session
     [Render browser ''.x'' None (Some margin_options),
      Render browser ''.x'' None (Some other_margin_options)]
     (mount blank)
     = Inr \<lparr>page = blank, observerRef = Some (example_observer margin_options [0, 1] []),
            cleanup = Some [0, 1], constructed = 1\<rparr>
   \<and> thresholds (example_observer margin_options [0, 1] []) = [1 / 4, 3 / 4]
   \<and> init_rootMargin (example_observer margin_options [0, 1] []) = ''10px''
   \<and> useScrollAnimation browser ''.x'' None (Some other_margin_options)
        \<lparr>page = blank, observerRef = Some (example_observer margin_options [0, 1] []),
         cleanup = Some [0, 1], constructed = 1\<rparr>
     = Inr \<lparr>page = blank, observerRef = Some (example_observer margin_options [0, 1] []),
            cleanup = Some [0, 1], constructed = 1\<rparr>
   \<and> run_session [Render browser ''.x'' None (Some other_margin_options)] (mount blank)
     = Inr \<lparr>page = blank,
            observerRef = Some \<lparr>oid = 0,
              callback = \<lparr>cb_visibleClass = ''is-visible'', cb_options = other_margin_options\<rparr>,
              thresholds = [0], init_rootMargin = ''50px 0px'',
              observationTargets = [0, 1], queuedEntries = []\<rparr>,
            cleanup = Some [0, 1], constructed = 1\<rparr>"
proof -
  let ?s1 = "\<lparr>page = blank, observerRef = Some (example_observer margin_options [0, 1] []),
              cleanup = Some [0, 1], constructed = 1\<rparr>"
  have h: "run_session
     (Render browser ''.x'' None (Some margin_options)
        # [Render browser ''.x'' None (Some other_margin_options)])
     (mount blank) = Inr ?s1"
    by (simp add: run_defs example_defs)
  have r: "useScrollAnimation browser ''.x'' None (Some other_margin_options) ?s1 = Inr ?s1"
    by (simp add: run_defs example_defs)
  have o: "observerRef ?s1 = Some (example_observer margin_options [0, 1] [])"
    by simp
  have other: "run_session (Render browser ''.x'' None (Some other_margin_options) # []) (mount blank)
     = Inr \<lparr>page = blank,
            observerRef = Some \<lparr>oid = 0,
              callback = \<lparr>cb_visibleClass = ''is-visible'', cb_options = other_margin_options\<rparr>,
              thresholds = [0], init_rootMargin = ''50px 0px'',
              observationTargets = [0, 1], queuedEntries = []\<rparr>,
            cleanup = Some [0, 1], constructed = 1\<rparr>"
    by (simp add: run_defs example_defs)
  note inst = engine_settings_fixed_at_creation [OF h]
  from inst o have "thresholds (example_observer margin_options [0, 1] [])
      = (case Some margin_options of
           None \<Rightarrow> [1 / 10]
         | Some given \<Rightarrow>
             (case threshold given of
                None \<Rightarrow> [0]
              | Some (Number x) \<Rightarrow> [x]
              | Some (Numbers xs) \<Rightarrow> (if xs = [] then [0] else sort xs)))"
    by auto
  then have th: "thresholds (example_observer margin_options [0, 1] []) = [1 / 4, 3 / 4]"
    by (simp add: margin_options_def)
  from inst o have "init_rootMargin (example_observer margin_options [0, 1] [])
      = (case Some margin_options of
           None \<Rightarrow> ''0px''
         | Some given \<Rightarrow>
             (case rootMargin given of
                None \<Rightarrow> ''0px''
              | Some m \<Rightarrow> (if m = [] then ''0px'' else m)))"
    by auto
  then have rm: "init_rootMargin (example_observer margin_options [0, 1] []) = ''10px''"
    by (simp add: margin_options_def)
  from inst o r
  have "\<exists>ob1. observerRef ?s1 = Some ob1
          \<and> thresholds ob1 = thresholds (example_observer margin_options [0, 1] [])"
    by blast
  then show ?thesis using h r th rm other by simp
qed



end
